theory Spec2Isabelle
  imports Main "HOL-Library.Multiset"
begin

section \<open>Data model\<close>

text \<open>
  The two player symbols of the source are the strings "X" and "O". A board cell holds
  \<^verbatim>\<open>null\<close>, "X" or "O"; reading a JavaScript array outside its length yields
  \<^verbatim>\<open>undefined\<close>, which is a third value of the cell type here.
\<close>

datatype role = RoleX | RoleO

datatype cell = Null | Mark role | Undefined

datatype status = Waiting | Playing | Ended

datatype errcode =
    ROOM_NOT_FOUND | WRONG_PASSKEY | ROOM_FULL | NOT_YOUR_TURN | CELL_TAKEN
  | GAME_NOT_STARTED | INVALID_CELL | NOT_IN_ROOM | GAME_NOT_ENDED | ALREADY_VOTED

record player =
  socketId :: string
  role :: role

text \<open>
  \<open>replayVotes\<close> is a JavaScript \<^verbatim>\<open>Set\<close>: it keeps insertion order and holds no
  element twice, so it is a list to which an element is appended only when absent.
\<close>

record room =
  roomId :: string
  passKeyHash :: string
  players :: "player list"
  board :: "cell list"
  turn :: role
  status :: status
  replayVotes :: "string list"
  startingTurn :: role

section \<open>Game engine (backend/game-engine.js)\<close>

definition WINNING_LINES :: "(nat \<times> nat \<times> nat) list" where
  "WINNING_LINES =
     [(0, 1, 2), (3, 4, 5), (6, 7, 8),
      (0, 3, 6), (1, 4, 7), (2, 5, 8),
      (0, 4, 8), (2, 4, 6)]"

text \<open>\<^verbatim>\<open>board[i]\<close>: an index outside the array reads \<^verbatim>\<open>undefined\<close>.\<close>

definition cellAt :: "cell list \<Rightarrow> nat \<Rightarrow> cell" where
  "cellAt bd i = (if i < length bd then bd ! i else Undefined)"

text \<open>
  The body of the loop of \<^verbatim>\<open>checkWinner\<close> for one line:
  \<^verbatim>\<open>board[a] && board[a] === board[b] && board[a] === board[c]\<close>.
  Only "X" and "O" are truthy.
\<close>

fun lineWinner :: "cell list \<Rightarrow> nat \<times> nat \<times> nat \<Rightarrow> role option" where
  "lineWinner bd (a, b, c) =
     (case cellAt bd a of
        Mark r \<Rightarrow> (if cellAt bd a = cellAt bd b \<and> cellAt bd a = cellAt bd c
                   then Some r else None)
      | Null \<Rightarrow> None
      | Undefined \<Rightarrow> None)"

text \<open>The \<^verbatim>\<open>for (const line of ...)\<close> loop, over any list of lines.\<close>

fun scanLines :: "(nat \<times> nat \<times> nat) list \<Rightarrow> cell list \<Rightarrow> role option" where
  "scanLines [] bd = None"
| "scanLines (l # ls) bd =
     (case lineWinner bd l of Some r \<Rightarrow> Some r | None \<Rightarrow> scanLines ls bd)"

definition checkWinner :: "cell list \<Rightarrow> role option" where
  "checkWinner bd = scanLines WINNING_LINES bd"

text \<open>\<^verbatim>\<open>board.every(cell => cell !== null)\<close>\<close>

definition checkDraw :: "cell list \<Rightarrow> bool" where
  "checkDraw bd = list_all (\<lambda>c. c \<noteq> Null) bd"

text \<open>
  \<^verbatim>\<open>validateMove(room, playerRole, index)\<close>; \<open>None\<close> is \<^verbatim>\<open>{ valid: true }\<close>.
  The index is an integer here. A JavaScript number that is not an integer never passes:
  below 0 or above 8 it is INVALID_CELL, and otherwise \<^verbatim>\<open>board[index]\<close> is
  \<^verbatim>\<open>undefined\<close>, which is not \<^verbatim>\<open>null\<close>, so it is CELL_TAKEN.
\<close>

definition validateMove :: "room \<Rightarrow> role \<Rightarrow> int \<Rightarrow> errcode option" where
  "validateMove rm playerRole index =
     (if status rm \<noteq> Playing then Some GAME_NOT_STARTED
      else if turn rm \<noteq> playerRole then Some NOT_YOUR_TURN
      else if index < 0 \<or> index > 8 then Some INVALID_CELL
      else if cellAt (board rm) (nat index) \<noteq> Null then Some CELL_TAKEN
      else None)"

text \<open>
  \<^verbatim>\<open>board[index] = v\<close>: inside the array the cell is overwritten; beyond its end the
  array grows and the skipped cells read \<^verbatim>\<open>undefined\<close>.
\<close>

definition setCell :: "cell list \<Rightarrow> nat \<Rightarrow> cell \<Rightarrow> cell list" where
  "setCell bd i v =
     (if i < length bd then bd[i := v]
      else bd @ replicate (i - length bd) Undefined @ [v])"

text \<open>The \<^verbatim>\<open>winner\<close> field of the result of \<^verbatim>\<open>applyMove\<close>: "X", "O", "draw" or null.\<close>

datatype outcome = Winner role | Draw | NoOutcome

definition getOppositeRole :: "role \<Rightarrow> role" where
  "getOppositeRole r = (if r = RoleX then RoleO else RoleX)"

text \<open>\<^verbatim>\<open>applyMove(room, index)\<close> mutates the room; the model returns the room it leaves.\<close>

definition applyMove :: "room \<Rightarrow> nat \<Rightarrow> outcome \<times> room" where
  "applyMove rm index =
     (let rm1 = rm\<lparr>board := setCell (board rm) index (Mark (turn rm))\<rparr> in
      case checkWinner (board rm1) of
        Some w \<Rightarrow> (Winner w, rm1\<lparr>status := Ended\<rparr>)
      | None \<Rightarrow>
          if checkDraw (board rm1) then (Draw, rm1\<lparr>status := Ended\<rparr>)
          else (NoOutcome, rm1\<lparr>turn := (if turn rm1 = RoleX then RoleO else RoleX)\<rparr>))"

section \<open>Room manager (backend/room-manager.js)\<close>

text \<open>
  The store \<^verbatim>\<open>rooms\<close> is a \<^verbatim>\<open>Map\<close> from room identifiers to room objects. Every
  operation takes the store and returns its result together with the store it leaves, so
  that what a failing call does to the store is part of the model.
\<close>

type_synonym store = "string \<rightharpoonup> room"

datatype 'a result = Success 'a | Failure errcode

text \<open>
  A call either returns or throws. The only exception the room manager can raise by
  itself is the \<^verbatim>\<open>TypeError\<close> of an assignment to a \<^verbatim>\<open>const\<close> binding.
\<close>

datatype 'a completion = Returned 'a | Threw_TypeError

definition chars :: string where
  "chars = ''ABCDEFGHIJKLMNOPQRSTUVWXYZ0123456789''"

text \<open>\<^verbatim>\<open>s.charAt(i)\<close> is the empty string outside the string.\<close>

definition charAt :: "string \<Rightarrow> nat \<Rightarrow> string" where
  "charAt s i = (if i < length s then [s ! i] else [])"

text \<open>
  \<^verbatim>\<open>generateRoomId()\<close>. The random source is a parameter: \<open>rnd i\<close> is the value of
  \<^verbatim>\<open>Math.floor(Math.random() * chars.length)\<close> at the \<open>i\<close>-th draw.
\<close>

definition generateRoomId :: "(nat \<Rightarrow> nat) \<Rightarrow> string" where
  "generateRoomId rnd = concat (map (\<lambda>i. charAt chars (rnd i)) [0..<6])"

text \<open>
  \<^verbatim>\<open>createRoom(passKey, socketId)\<close>. The identifier is bound with \<^verbatim>\<open>const\<close>, and the
  body of the \<^verbatim>\<open>while (rooms.has(roomId))\<close> loop assigns to it: when the first
  identifier is in the store the assignment throws and the call ends there, before
  anything is written. \<open>hashf\<close> stands for \<^verbatim>\<open>bcrypt.hash(passKey, 10)\<close>.
\<close>

definition createRoom ::
  "(string \<Rightarrow> string) \<Rightarrow> (nat \<Rightarrow> nat) \<Rightarrow> string \<Rightarrow> string \<Rightarrow> store
     \<Rightarrow> string completion \<times> store" where
  "createRoom hashf rnd passKey sid rooms =
     (let rid = generateRoomId rnd in
      if rooms rid \<noteq> None then (Threw_TypeError, rooms)
      else
        let rm = \<lparr>roomId = rid, passKeyHash = hashf passKey,
                  players = [\<lparr>socketId = sid, role = RoleX\<rparr>],
                  board = replicate 9 Null, turn = RoleX, status = Waiting,
                  replayVotes = [], startingTurn = RoleX\<rparr>
        in (Returned rid, rooms(rid \<mapsto> rm)))"

text \<open>
  \<^verbatim>\<open>joinRoom(roomId, passKey, socketId)\<close>. \<open>compare\<close> stands for
  \<^verbatim>\<open>bcrypt.compare(passKey, room.passKeyHash)\<close>. A success carries the role and the
  \<^verbatim>\<open>alreadyJoined\<close> flag.
\<close>

definition joinRoom ::
  "(string \<Rightarrow> string \<Rightarrow> bool) \<Rightarrow> store \<Rightarrow> string \<Rightarrow> string \<Rightarrow> string
     \<Rightarrow> (role \<times> bool) result \<times> store" where
  "joinRoom compare rooms rid passKey sid =
     (case rooms rid of
        None \<Rightarrow> (Failure ROOM_NOT_FOUND, rooms)
      | Some rm \<Rightarrow>
          if \<not> compare passKey (passKeyHash rm) then (Failure WRONG_PASSKEY, rooms)
          else if length (players rm) \<ge> 2 then (Failure ROOM_FULL, rooms)
          else
            (case find (\<lambda>p. socketId p = sid) (players rm) of
               Some existingPlayer \<Rightarrow> (Success (role existingPlayer, True), rooms)
             | None \<Rightarrow>
                 let r = (if length (players rm) = 0 then RoleX else RoleO);
                     rm1 = rm\<lparr>players := players rm @ [\<lparr>socketId = sid, role = r\<rparr>]\<rparr>;
                     rm2 = (if length (players rm1) = 2 then rm1\<lparr>status := Playing\<rparr> else rm1)
                 in (Success (r, False), rooms(rid \<mapsto> rm2))))"

definition getRoom :: "store \<Rightarrow> string \<Rightarrow> room option" where
  "getRoom rooms rid = rooms rid"

definition getPlayerRole :: "store \<Rightarrow> string \<Rightarrow> string \<Rightarrow> role option" where
  "getPlayerRole rooms rid sid =
     (case rooms rid of
        None \<Rightarrow> None
      | Some rm \<Rightarrow>
          (case find (\<lambda>p. socketId p = sid) (players rm) of
             Some p \<Rightarrow> Some (role p)
           | None \<Rightarrow> None))"

text \<open>
  \<^verbatim>\<open>applyMoveToRoom(roomId, socketId, index)\<close>. A success carries the room after the
  move and the outcome.
\<close>

definition applyMoveToRoom ::
  "store \<Rightarrow> string \<Rightarrow> string \<Rightarrow> int \<Rightarrow> (room \<times> outcome) result \<times> store" where
  "applyMoveToRoom rooms rid sid index =
     (case rooms rid of
        None \<Rightarrow> (Failure ROOM_NOT_FOUND, rooms)
      | Some rm \<Rightarrow>
          (case getPlayerRole rooms rid sid of
             None \<Rightarrow> (Failure NOT_IN_ROOM, rooms)
           | Some playerRole \<Rightarrow>
               (case validateMove rm playerRole index of
                  Some e \<Rightarrow> (Failure e, rooms)
                | None \<Rightarrow>
                    let (out, rm1) = applyMove rm (nat index)
                    in (Success (rm1, out), rooms(rid \<mapsto> rm1)))))"

text \<open>\<^verbatim>\<open>set.add(x)\<close> on the list that models a \<^verbatim>\<open>Set\<close>.\<close>

definition setAdd :: "string list \<Rightarrow> string \<Rightarrow> string list" where
  "setAdd vs x = (if x \<in> set vs then vs else vs @ [x])"

text \<open>\<^verbatim>\<open>registerReplayVote(roomId, socketId)\<close>. A success carries the number of votes.\<close>

definition registerReplayVote :: "store \<Rightarrow> string \<Rightarrow> string \<Rightarrow> nat result \<times> store" where
  "registerReplayVote rooms rid sid =
     (case rooms rid of
        None \<Rightarrow> (Failure ROOM_NOT_FOUND, rooms)
      | Some rm \<Rightarrow>
          if status rm \<noteq> Ended then (Failure GAME_NOT_ENDED, rooms)
          else if sid \<in> set (replayVotes rm) then (Failure ALREADY_VOTED, rooms)
          else
            let rm1 = rm\<lparr>replayVotes := setAdd (replayVotes rm) sid\<rparr>
            in (Success (length (replayVotes rm1)), rooms(rid \<mapsto> rm1)))"

text \<open>\<^verbatim>\<open>resetRoom(roomId)\<close> returns the reset room, or null when there is none.\<close>

definition resetRoom :: "store \<Rightarrow> string \<Rightarrow> room option \<times> store" where
  "resetRoom rooms rid =
     (case rooms rid of
        None \<Rightarrow> (None, rooms)
      | Some rm \<Rightarrow>
          let rm1 = rm\<lparr>board := replicate 9 Null\<rparr>;
              rm2 = rm1\<lparr>startingTurn := (if startingTurn rm1 = RoleX then RoleO else RoleX)\<rparr>;
              rm3 = rm2\<lparr>turn := startingTurn rm2\<rparr>;
              rm4 = rm3\<lparr>replayVotes := []\<rparr>;
              rm5 = rm4\<lparr>status := Playing\<rparr>
          in (Some rm5, rooms(rid \<mapsto> rm5)))"

record removeResult =
  roomExists :: bool
  hadPlayers :: bool
  remainingPlayers :: nat

text \<open>\<^verbatim>\<open>xs.findIndex(p)\<close>; \<open>None\<close> is the result -1.\<close>

fun findIndex :: "('a \<Rightarrow> bool) \<Rightarrow> 'a list \<Rightarrow> nat option" where
  "findIndex P [] = None"
| "findIndex P (x # xs) =
     (if P x then Some 0
      else case findIndex P xs of None \<Rightarrow> None | Some i \<Rightarrow> Some (Suc i))"

text \<open>\<^verbatim>\<open>xs.splice(i, 1)\<close>: the list without its \<open>i\<close>-th element.\<close>

definition splice1 :: "'a list \<Rightarrow> nat \<Rightarrow> 'a list" where
  "splice1 xs i = take i xs @ drop (Suc i) xs"

text \<open>\<^verbatim>\<open>removePlayer(roomId, socketId)\<close>\<close>

definition removePlayer :: "store \<Rightarrow> string \<Rightarrow> string \<Rightarrow> removeResult \<times> store" where
  "removePlayer rooms rid sid =
     (case rooms rid of
        None \<Rightarrow> (\<lparr>roomExists = False, hadPlayers = False, remainingPlayers = 0\<rparr>, rooms)
      | Some rm \<Rightarrow>
          (case findIndex (\<lambda>p. socketId p = sid) (players rm) of
             None \<Rightarrow>
               (\<lparr>roomExists = True, hadPlayers = False,
                 remainingPlayers = length (players rm)\<rparr>, rooms)
           | Some playerIndex \<Rightarrow>
               let rm1 = rm\<lparr>players := splice1 (players rm) playerIndex\<rparr> in
               if length (players rm1) = 0
               then (\<lparr>roomExists = False, hadPlayers = True, remainingPlayers = 0\<rparr>,
                     rooms(rid := None))
               else
                 let rm2 = rm1\<lparr>status := Waiting, board := replicate 9 Null,
                               turn := RoleX, replayVotes := []\<rparr>
                 in (\<lparr>roomExists = True, hadPlayers = True,
                      remainingPlayers = length (players rm2)\<rparr>,
                     rooms(rid \<mapsto> rm2))))"

section \<open>Socket handler (backend/socket-handler.js)\<close>

text \<open>
  What the \<^verbatim>\<open>replay_request\<close> handler of the socket handler does to the store: it
  registers the vote and, when the vote count returned is 2, resets the room. The
  messages it emits are not part of the model.
\<close>

definition replay_request :: "store \<Rightarrow> string \<Rightarrow> string \<Rightarrow> store" where
  "replay_request rooms rid sid =
     (case registerReplayVote rooms rid sid of
        (Failure e, rooms1) \<Rightarrow> rooms1
      | (Success votes, rooms1) \<Rightarrow>
          if votes = 2 then snd (resetRoom rooms1 rid) else rooms1)"

section \<open>Example states\<close>

text \<open>
  Concrete rooms and stores on which the theorems below are run. The pass key is compared
  with the stored hash by equality in these examples.
\<close>

definition playerA :: player where
  "playerA = \<lparr>socketId = ''sockA'', role = RoleX\<rparr>"

definition playerB :: player where
  "playerB = \<lparr>socketId = ''sockB'', role = RoleO\<rparr>"

definition wonFullBoard :: "cell list" where
  "wonFullBoard =
     [Mark RoleX, Mark RoleX, Mark RoleX,
      Mark RoleO, Mark RoleO, Mark RoleX,
      Mark RoleO, Mark RoleX, Mark RoleO]"

definition roomWaiting :: room where
  "roomWaiting =
     \<lparr>roomId = ''AAAAAA'', passKeyHash = ''abcd'', players = [playerA],
      board = replicate 9 Null, turn = RoleX, status = Waiting,
      replayVotes = [], startingTurn = RoleX\<rparr>"

definition roomPlaying :: room where
  "roomPlaying =
     \<lparr>roomId = ''AAAAAA'', passKeyHash = ''abcd'', players = [playerA, playerB],
      board = replicate 9 Null, turn = RoleX, status = Playing,
      replayVotes = [], startingTurn = RoleX\<rparr>"

definition roomAfterMove :: room where
  "roomAfterMove =
     \<lparr>roomId = ''AAAAAA'', passKeyHash = ''abcd'', players = [playerA, playerB],
      board = [Null, Null, Null, Null, Mark RoleX, Null, Null, Null, Null],
      turn = RoleO, status = Playing,
      replayVotes = [], startingTurn = RoleX\<rparr>"

definition roomEnded :: room where
  "roomEnded =
     \<lparr>roomId = ''AAAAAA'', passKeyHash = ''abcd'', players = [playerA, playerB],
      board = wonFullBoard, turn = RoleX, status = Ended,
      replayVotes = [], startingTurn = RoleX\<rparr>"

definition storeWaiting :: store where
  "storeWaiting = [''AAAAAA'' \<mapsto> roomWaiting]"

definition storePlaying :: store where
  "storePlaying = [''AAAAAA'' \<mapsto> roomPlaying]"

definition storeEnded :: store where
  "storeEnded = [''AAAAAA'' \<mapsto> roomEnded]"

section \<open>Boards reachable by play\<close>

text \<open>
  The rooms reachable by alternating legal moves: play starts on an empty board, and a
  move is made by the role whose turn it is, at an index \<open>validateMove\<close> accepts.
\<close>

inductive played :: "room \<Rightarrow> bool" where
  fresh: "board rm = replicate 9 Null \<Longrightarrow> played rm"
| move: "played rm \<Longrightarrow> validateMove rm (turn rm) index = None \<Longrightarrow>
         played (snd (applyMove rm (nat index)))"

text \<open>A sequence of moves from a room, each by the role whose turn it is; \<open>None\<close> when one is refused.\<close>

fun playMoves :: "room \<Rightarrow> int list \<Rightarrow> room option" where
  "playMoves rm [] = Some rm"
| "playMoves rm (i # is) =
     (case validateMove rm (turn rm) i of
        Some e \<Rightarrow> None
      | None \<Rightarrow> playMoves (snd (applyMove rm (nat i))) is)"

text \<open>The room after the moves 0, 1, 4, 2, 8 on an empty board: X wins on the diagonal.\<close>

definition roomScenarioB :: room where
  "roomScenarioB =
     \<lparr>roomId = ''AAAAAA'', passKeyHash = ''abcd'', players = [playerA, playerB],
      board = [Mark RoleX, Mark RoleO, Mark RoleO, Null, Mark RoleX, Null, Null, Null, Mark RoleX],
      turn = RoleX, status = Ended,
      replayVotes = [], startingTurn = RoleX\<rparr>"

section \<open>Sequences of calls and reachable stores\<close>

text \<open>A sequence of \<^verbatim>\<open>registerReplayVote\<close> calls on one room, by the given connections in order.\<close>

fun replayVoteCalls :: "store \<Rightarrow> string \<Rightarrow> string list \<Rightarrow> store" where
  "replayVoteCalls rooms rid [] = rooms"
| "replayVoteCalls rooms rid (sid # sids) =
     replayVoteCalls (snd (registerReplayVote rooms rid sid)) rid sids"

text \<open>\<^verbatim>\<open>room.replayVotes\<close> of a room of the store; empty when the room is absent.\<close>

definition votesOf :: "store \<Rightarrow> string \<Rightarrow> string list" where
  "votesOf rooms rid = (case rooms rid of None \<Rightarrow> [] | Some rm \<Rightarrow> replayVotes rm)"

text \<open>A random source whose every draw is 0, so that the identifier generated is AAAAAA.\<close>

definition zeroDraws :: "nat \<Rightarrow> nat" where
  "zeroDraws i = 0"

text \<open>
  The stores reachable from the empty store by the operations of the room manager, with
  any arguments, any hash and comparison functions and any random source.
\<close>

inductive reachable :: "store \<Rightarrow> bool" where
  start: "reachable Map.empty"
| create: "reachable rooms \<Longrightarrow> reachable (snd (createRoom hashf rnd passKey sid rooms))"
| join: "reachable rooms \<Longrightarrow> reachable (snd (joinRoom compare rooms rid passKey sid))"
| move: "reachable rooms \<Longrightarrow> reachable (snd (applyMoveToRoom rooms rid sid index))"
| vote: "reachable rooms \<Longrightarrow> reachable (snd (registerReplayVote rooms rid sid))"
| reset: "reachable rooms \<Longrightarrow> reachable (snd (resetRoom rooms rid))"
| remove: "reachable rooms \<Longrightarrow> reachable (snd (removePlayer rooms rid sid))"

section \<open>Properties of the game engine\<close>

lemma scanLines_Some:
  "scanLines ls bd = Some r \<Longrightarrow> \<exists>l\<in>set ls. lineWinner bd l = Some r"
  by (induction ls) (auto split: option.splits)

lemma scanLines_None:
  "(scanLines ls bd = None) = (\<forall>l\<in>set ls. lineWinner bd l = None)"
  by (induction ls) (auto split: option.splits)

lemma lineWinner_Some:
  "(lineWinner bd (a, b, c) = Some r) =
   (cellAt bd a = Mark r \<and> cellAt bd b = Mark r \<and> cellAt bd c = Mark r)"
  by (auto split: cell.splits)

lemma lineWinner_Null:
  "cellAt bd a = Null \<or> cellAt bd b = Null \<or> cellAt bd c = Null \<Longrightarrow>
   lineWinner bd (a, b, c) = None"
  by (auto split: cell.splits)

text \<open>
  Claim C10. \<open>checkWinner\<close> returns a role only when some winning line has all three
  cells marked with that role, so an EMPTY cell is never reported as a winner; when every
  winning line contains an EMPTY cell, and in particular on the all-EMPTY board, it
  returns none.
\<close>

theorem checkWinner_never_empty:
  "(checkWinner bd = Some r \<longrightarrow>
      (\<exists>(a, b, c)\<in>set WINNING_LINES.
         cellAt bd a = Mark r \<and> cellAt bd b = Mark r \<and> cellAt bd c = Mark r))
   \<and> ((\<forall>(a, b, c)\<in>set WINNING_LINES.
         cellAt bd a = Null \<or> cellAt bd b = Null \<or> cellAt bd c = Null)
       \<longrightarrow> checkWinner bd = None)
   \<and> checkWinner (replicate 9 Null) = None"
proof (intro conjI impI)
  assume "checkWinner bd = Some r"
  then obtain l where l: "l \<in> set WINNING_LINES" "lineWinner bd l = Some r"
    unfolding checkWinner_def by (blast dest: scanLines_Some)
  obtain a b c where abc: "l = (a, b, c)" by (cases l) auto
  with l have "cellAt bd a = Mark r \<and> cellAt bd b = Mark r \<and> cellAt bd c = Mark r"
    by (simp only: lineWinner_Some)
  with l(1) abc show "\<exists>(a, b, c)\<in>set WINNING_LINES.
      cellAt bd a = Mark r \<and> cellAt bd b = Mark r \<and> cellAt bd c = Mark r"
    by blast
next
  assume h: "\<forall>(a, b, c)\<in>set WINNING_LINES.
      cellAt bd a = Null \<or> cellAt bd b = Null \<or> cellAt bd c = Null"
  have "\<forall>l\<in>set WINNING_LINES. lineWinner bd l = None"
  proof
    fix l assume m: "l \<in> set WINNING_LINES"
    obtain a b c where abc: "l = (a, b, c)" by (cases l) auto
    from h m abc have "cellAt bd a = Null \<or> cellAt bd b = Null \<or> cellAt bd c = Null"
      by fastforce
    then show "lineWinner bd l = None"
      unfolding abc by (rule lineWinner_Null)
  qed
  then show "checkWinner bd = None"
    unfolding checkWinner_def by (simp only: scanLines_None)
next
  show "checkWinner (replicate 9 Null) = None"
    by (simp add: checkWinner_def WINNING_LINES_def cellAt_def)
qed

theorem checkWinner_never_empty_witness:
  "checkWinner [Mark RoleO, Null, Null, Mark RoleX, Mark RoleX, Mark RoleX, Mark RoleO, Null, Null]
     = Some RoleX
   \<and> (\<exists>(a, b, c)\<in>set WINNING_LINES.
        cellAt [Mark RoleO, Null, Null, Mark RoleX, Mark RoleX, Mark RoleX, Mark RoleO, Null, Null] a = Mark RoleX
      \<and> cellAt [Mark RoleO, Null, Null, Mark RoleX, Mark RoleX, Mark RoleX, Mark RoleO, Null, Null] b = Mark RoleX
      \<and> cellAt [Mark RoleO, Null, Null, Mark RoleX, Mark RoleX, Mark RoleX, Mark RoleO, Null, Null] c = Mark RoleX)
   \<and> checkWinner [Mark RoleX, Null, Null, Null, Null, Null, Null, Null, Mark RoleO] = None"
proof -
  have w: "checkWinner [Mark RoleO, Null, Null, Mark RoleX, Mark RoleX, Mark RoleX, Mark RoleO, Null, Null]
             = Some RoleX"
    by (simp add: checkWinner_def WINNING_LINES_def cellAt_def)
  have e: "\<forall>(a, b, c)\<in>set WINNING_LINES.
        cellAt [Mark RoleX, Null, Null, Null, Null, Null, Null, Null, Mark RoleO] a = Null
      \<or> cellAt [Mark RoleX, Null, Null, Null, Null, Null, Null, Null, Mark RoleO] b = Null
      \<or> cellAt [Mark RoleX, Null, Null, Null, Null, Null, Null, Null, Mark RoleO] c = Null"
    by (simp add: WINNING_LINES_def cellAt_def)
  from w e
    checkWinner_never_empty [of "[Mark RoleO, Null, Null, Mark RoleX, Mark RoleX, Mark RoleX, Mark RoleO, Null, Null]" RoleX]
    checkWinner_never_empty [of "[Mark RoleX, Null, Null, Null, Null, Null, Null, Null, Mark RoleO]" RoleX]
  show ?thesis by blast
qed

lemma replicate_9: "replicate 9 x = [x, x, x, x, x, x, x, x, x]"
  by (simp add: numeral_eq_Suc)

lemma checkDraw_iff: "checkDraw bd = (Null \<notin> set bd)"
  by (auto simp: checkDraw_def list_all_iff)

text \<open>
  Claim C1, as stated: \<open>checkDraw\<close> is true iff no cell is EMPTY and \<open>checkWinner\<close> is
  none. It fails on a full board that holds a winning line: \<open>checkDraw\<close> is true there.
\<close>

theorem checkDraw_counterexample:
  "\<not> (checkDraw wonFullBoard = (Null \<notin> set wonFullBoard \<and> checkWinner wonFullBoard = None))"
  by (simp add: wonFullBoard_def checkDraw_def checkWinner_def WINNING_LINES_def cellAt_def)

text \<open>
  Claim C1, amended. \<open>checkDraw\<close> is true iff no cell of the board is EMPTY; it does not
  look at the winner. The winner is excluded by the caller: \<open>applyMove\<close> asks
  \<open>checkWinner\<close> first, so it reports a draw iff after the move no cell is EMPTY and
  \<open>checkWinner\<close> is none.
\<close>

theorem checkDraw_full_board:
  "checkDraw bd = (Null \<notin> set bd)
   \<and> ((fst (applyMove rm i) = Draw) =
        (Null \<notin> set (board (snd (applyMove rm i)))
         \<and> checkWinner (board (snd (applyMove rm i))) = None))"
  by (auto simp: checkDraw_iff applyMove_def Let_def split: option.splits)

theorem checkDraw_full_board_witness:
  "checkDraw wonFullBoard \<and> Null \<notin> set wonFullBoard
   \<and> fst (applyMove roomPlaying 4) \<noteq> Draw"
  using checkDraw_full_board [of wonFullBoard roomPlaying 4]
  by (simp add: wonFullBoard_def roomPlaying_def applyMove_def setCell_def replicate_9
      checkWinner_def checkDraw_def WINNING_LINES_def cellAt_def Let_def)

section \<open>Properties of the room manager\<close>

lemma cellAt_setCell_same:
  "i < length bd \<Longrightarrow> cellAt (setCell bd i v) i = v"
  by (simp add: cellAt_def setCell_def)

lemma cellAt_setCell_other:
  "i < length bd \<Longrightarrow> j \<noteq> i \<Longrightarrow> cellAt (setCell bd i v) j = cellAt bd j"
  by (simp add: cellAt_def setCell_def)

lemma validateMove_None:
  "validateMove rm r index = None \<Longrightarrow>
   status rm = Playing \<and> turn rm = r \<and> 0 \<le> index \<and> index \<le> 8
   \<and> nat index < length (board rm) \<and> board rm ! nat index = Null"
  by (auto simp: validateMove_def cellAt_def split: if_splits)

lemma applyMove_board:
  "board (snd (applyMove rm i)) = setCell (board rm) i (Mark (turn rm))"
  by (simp add: applyMove_def Let_def split: option.splits)

lemma applyMove_turn:
  "(turn (snd (applyMove rm i)) = getOppositeRole (turn rm)) = (fst (applyMove rm i) = NoOutcome)"
  "(turn (snd (applyMove rm i)) = turn rm) = (fst (applyMove rm i) \<noteq> NoOutcome)"
  by (auto simp: applyMove_def Let_def getOppositeRole_def split: option.splits)

lemma applyMoveToRoom_Success:
  "applyMoveToRoom rooms rid sid index = (Success (rm', out), rooms') \<Longrightarrow>
   \<exists>rm r. rooms rid = Some rm \<and> getPlayerRole rooms rid sid = Some r
      \<and> validateMove rm r index = None
      \<and> applyMove rm (nat index) = (out, rm') \<and> rooms' = rooms(rid \<mapsto> rm')"
  by (auto simp: applyMoveToRoom_def split: option.splits prod.splits)

text \<open>
  Claim C5. When \<open>applyMoveToRoom\<close> succeeds, the cell at the index was EMPTY and now
  holds the role of the connection that moved, the board keeps its length and every
  other cell, and the turn went to the other role iff the move produced no outcome
  (otherwise it stayed).
\<close>

theorem applyMoveToRoom_one_cell:
  assumes "applyMoveToRoom rooms rid sid index = (Success (rm', out), rooms')"
  shows "\<exists>rm r. rooms rid = Some rm \<and> getPlayerRole rooms rid sid = Some r
      \<and> rooms' rid = Some rm'
      \<and> 0 \<le> index \<and> nat index < length (board rm)
      \<and> length (board rm') = length (board rm)
      \<and> cellAt (board rm) (nat index) = Null
      \<and> cellAt (board rm') (nat index) = Mark r
      \<and> (\<forall>j. j \<noteq> nat index \<longrightarrow> cellAt (board rm') j = cellAt (board rm) j)
      \<and> ((turn rm' = getOppositeRole (turn rm)) = (out = NoOutcome))
      \<and> ((turn rm' = turn rm) = (out \<noteq> NoOutcome))"
proof -
  from assms obtain rm r where
    rm: "rooms rid = Some rm" and r: "getPlayerRole rooms rid sid = Some r"
    and v: "validateMove rm r index = None"
    and a: "applyMove rm (nat index) = (out, rm')"
    and s: "rooms' = rooms(rid \<mapsto> rm')"
    by (blast dest: applyMoveToRoom_Success)
  from v have t: "turn rm = r" and i0: "0 \<le> index"
    and il: "nat index < length (board rm)" and e: "board rm ! nat index = Null"
    by (auto dest: validateMove_None)
  from a have b: "board rm' = setCell (board rm) (nat index) (Mark r)"
    using applyMove_board [of rm "nat index"] t by simp
  from il b have len: "length (board rm') = length (board rm)"
    by (simp add: setCell_def)
  from il e have c0: "cellAt (board rm) (nat index) = Null"
    by (simp add: cellAt_def)
  from il b have c1: "cellAt (board rm') (nat index) = Mark r"
    by (simp add: cellAt_setCell_same)
  from il b have c2: "\<forall>j. j \<noteq> nat index \<longrightarrow> cellAt (board rm') j = cellAt (board rm) j"
    by (simp add: cellAt_setCell_other)
  from a have t1: "(turn rm' = getOppositeRole (turn rm)) = (out = NoOutcome)"
    using applyMove_turn(1) [of rm "nat index"] by simp
  from a have t2: "(turn rm' = turn rm) = (out \<noteq> NoOutcome)"
    using applyMove_turn(2) [of rm "nat index"] by simp
  from s have "rooms' rid = Some rm'" by simp
  with rm r i0 il len c0 c1 c2 t1 t2 show ?thesis by blast
qed

theorem applyMoveToRoom_one_cell_witness:
  "applyMoveToRoom storePlaying ''AAAAAA'' ''sockA'' 4
     = (Success (roomAfterMove, NoOutcome), storePlaying(''AAAAAA'' \<mapsto> roomAfterMove))
   \<and> (\<exists>rm r. storePlaying ''AAAAAA'' = Some rm
        \<and> getPlayerRole storePlaying ''AAAAAA'' ''sockA'' = Some r
        \<and> cellAt (board rm) 4 = Null
        \<and> cellAt (board roomAfterMove) 4 = Mark r
        \<and> (\<forall>j. j \<noteq> 4 \<longrightarrow> cellAt (board roomAfterMove) j = cellAt (board rm) j)
        \<and> turn roomAfterMove = getOppositeRole (turn rm))"
proof -
  have h: "applyMoveToRoom storePlaying ''AAAAAA'' ''sockA'' 4
     = (Success (roomAfterMove, NoOutcome), storePlaying(''AAAAAA'' \<mapsto> roomAfterMove))"
    by (simp add: applyMoveToRoom_def storePlaying_def roomPlaying_def roomAfterMove_def
        playerA_def playerB_def getPlayerRole_def validateMove_def applyMove_def
        setCell_def checkWinner_def checkDraw_def WINNING_LINES_def cellAt_def Let_def
        replicate_9)
  from applyMoveToRoom_one_cell [OF h] h show ?thesis by auto
qed

text \<open>
  Claim C6. When \<open>joinRoom\<close>, \<open>applyMoveToRoom\<close> or \<open>registerReplayVote\<close> returns an
  error, the store it leaves is the store it was given, so no field of any room has
  changed; a join with the wrong pass key on an existing room returns WRONG_PASSKEY and
  leaves the store as it was.
\<close>

theorem failure_leaves_store:
  "(joinRoom compare rooms rid pk sid = (Failure e, rooms') \<longrightarrow> rooms' = rooms)
   \<and> (applyMoveToRoom rooms rid sid index = (Failure e, rooms') \<longrightarrow> rooms' = rooms)
   \<and> (registerReplayVote rooms rid sid = (Failure e, rooms') \<longrightarrow> rooms' = rooms)
   \<and> (rooms rid = Some rm \<and> \<not> compare pk (passKeyHash rm) \<longrightarrow>
        joinRoom compare rooms rid pk sid = (Failure WRONG_PASSKEY, rooms))"
proof (intro conjI impI)
  assume "joinRoom compare rooms rid pk sid = (Failure e, rooms')"
  then show "rooms' = rooms"
    by (auto simp: joinRoom_def Let_def split: option.splits if_splits)
next
  assume "applyMoveToRoom rooms rid sid index = (Failure e, rooms')"
  then show "rooms' = rooms"
    by (auto simp: applyMoveToRoom_def split: option.splits prod.splits)
next
  assume "registerReplayVote rooms rid sid = (Failure e, rooms')"
  then show "rooms' = rooms"
    by (auto simp: registerReplayVote_def Let_def split: option.splits if_splits)
next
  assume "rooms rid = Some rm \<and> \<not> compare pk (passKeyHash rm)"
  then show "joinRoom compare rooms rid pk sid = (Failure WRONG_PASSKEY, rooms)"
    by (simp add: joinRoom_def)
qed

theorem failure_leaves_store_witness:
  "fst (joinRoom (=) storePlaying ''AAAAAA'' ''wxyz'' ''sockC'') = Failure WRONG_PASSKEY
   \<and> snd (joinRoom (=) storePlaying ''AAAAAA'' ''wxyz'' ''sockC'') = storePlaying
   \<and> fst (applyMoveToRoom storePlaying ''AAAAAA'' ''sockB'' 4) = Failure NOT_YOUR_TURN
   \<and> snd (applyMoveToRoom storePlaying ''AAAAAA'' ''sockB'' 4) = storePlaying
   \<and> fst (registerReplayVote storePlaying ''AAAAAA'' ''sockA'') = Failure GAME_NOT_ENDED
   \<and> snd (registerReplayVote storePlaying ''AAAAAA'' ''sockA'') = storePlaying
   \<and> storePlaying ''AAAAAA'' = Some roomPlaying \<and> \<not> ''wxyz'' = passKeyHash roomPlaying"
proof -
  have j: "fst (joinRoom (=) storePlaying ''AAAAAA'' ''wxyz'' ''sockC'') = Failure WRONG_PASSKEY"
    by (simp add: joinRoom_def storePlaying_def roomPlaying_def)
  have m: "fst (applyMoveToRoom storePlaying ''AAAAAA'' ''sockB'' 4) = Failure NOT_YOUR_TURN"
    by (simp add: applyMoveToRoom_def storePlaying_def roomPlaying_def playerA_def
        playerB_def getPlayerRole_def validateMove_def)
  have v: "fst (registerReplayVote storePlaying ''AAAAAA'' ''sockA'') = Failure GAME_NOT_ENDED"
    by (simp add: registerReplayVote_def storePlaying_def roomPlaying_def)
  have p: "storePlaying ''AAAAAA'' = Some roomPlaying \<and> \<not> ''wxyz'' = passKeyHash roomPlaying"
    by (simp add: storePlaying_def roomPlaying_def)
  from j have j': "joinRoom (=) storePlaying ''AAAAAA'' ''wxyz'' ''sockC''
      = (Failure WRONG_PASSKEY, snd (joinRoom (=) storePlaying ''AAAAAA'' ''wxyz'' ''sockC''))"
    by (metis prod.collapse)
  from m have m': "applyMoveToRoom storePlaying ''AAAAAA'' ''sockB'' 4
      = (Failure NOT_YOUR_TURN, snd (applyMoveToRoom storePlaying ''AAAAAA'' ''sockB'' 4))"
    by (metis prod.collapse)
  from v have v': "registerReplayVote storePlaying ''AAAAAA'' ''sockA''
      = (Failure GAME_NOT_ENDED, snd (registerReplayVote storePlaying ''AAAAAA'' ''sockA''))"
    by (metis prod.collapse)
  from j j'
    failure_leaves_store [of "(=)" storePlaying "''AAAAAA''" "''wxyz''" "''sockC''" WRONG_PASSKEY
      "snd (joinRoom (=) storePlaying ''AAAAAA'' ''wxyz'' ''sockC'')"]
  have c1: "snd (joinRoom (=) storePlaying ''AAAAAA'' ''wxyz'' ''sockC'') = storePlaying"
    by blast
  from m'
    failure_leaves_store [of _ storePlaying "''AAAAAA''" _ "''sockB''" NOT_YOUR_TURN
      "snd (applyMoveToRoom storePlaying ''AAAAAA'' ''sockB'' 4)" 4]
  have c2: "snd (applyMoveToRoom storePlaying ''AAAAAA'' ''sockB'' 4) = storePlaying"
    by blast
  from v'
    failure_leaves_store [of _ storePlaying "''AAAAAA''" _ "''sockA''" GAME_NOT_ENDED
      "snd (registerReplayVote storePlaying ''AAAAAA'' ''sockA'')"]
  have c3: "snd (registerReplayVote storePlaying ''AAAAAA'' ''sockA'') = storePlaying"
    by blast
  from j m v p c1 c2 c3 show ?thesis by blast
qed

text \<open>
  Claim C9. For a room in the store, whatever its status and however many members it
  has, \<open>resetRoom\<close> sets the nine cells to EMPTY, flips \<open>startingTurn\<close>, sets \<open>turn\<close> to
  the new \<open>startingTurn\<close>, empties \<open>replayVotes\<close> and sets the status to PLAYING, leaving
  the members, the identifier and the hash; for an absent identifier it returns none and
  the store is as it was.
\<close>

theorem resetRoom_any_status:
  "(rooms rid = Some rm \<longrightarrow>
      (\<exists>rm'. resetRoom rooms rid = (Some rm', rooms(rid \<mapsto> rm'))
         \<and> board rm' = replicate 9 Null
         \<and> startingTurn rm' = getOppositeRole (startingTurn rm)
         \<and> turn rm' = startingTurn rm'
         \<and> replayVotes rm' = []
         \<and> status rm' = Playing
         \<and> players rm' = players rm
         \<and> roomId rm' = roomId rm
         \<and> passKeyHash rm' = passKeyHash rm))
   \<and> (rooms rid = None \<longrightarrow> resetRoom rooms rid = (None, rooms))"
  by (simp add: resetRoom_def Let_def getOppositeRole_def)

theorem resetRoom_any_status_witness:
  "storeWaiting ''AAAAAA'' = Some roomWaiting
   \<and> (\<exists>rm'. resetRoom storeWaiting ''AAAAAA'' = (Some rm', storeWaiting(''AAAAAA'' \<mapsto> rm'))
         \<and> board rm' = replicate 9 Null
         \<and> startingTurn rm' = RoleO
         \<and> turn rm' = RoleO
         \<and> replayVotes rm' = []
         \<and> status rm' = Playing
         \<and> players rm' = [playerA])
   \<and> storeWaiting ''BBBBBB'' = None
   \<and> resetRoom storeWaiting ''BBBBBB'' = (None, storeWaiting)"
proof -
  have a: "storeWaiting ''AAAAAA'' = Some roomWaiting"
    by (simp add: storeWaiting_def)
  have b: "storeWaiting ''BBBBBB'' = None"
    by (simp add: storeWaiting_def)
  have c: "getOppositeRole (startingTurn roomWaiting) = RoleO" "players roomWaiting = [playerA]"
    by (simp_all add: roomWaiting_def getOppositeRole_def)
  from a b c resetRoom_any_status [of storeWaiting "''AAAAAA''" roomWaiting]
    resetRoom_any_status [of storeWaiting "''BBBBBB''" roomWaiting]
  show ?thesis by auto
qed

section \<open>Order of the winning lines\<close>

lemma lineWinner_fresh: "lineWinner (replicate 9 Null) l = None"
  by (cases l) (auto simp: cellAt_def split: cell.splits)

lemma lineWinner_setCell:
  assumes i: "i < length bd"
    and n: "lineWinner bd l = None"
    and s: "lineWinner (setCell bd i (Mark t)) l = Some r"
  shows "r = t"
proof -
  obtain a b c where l: "l = (a, b, c)" by (cases l) auto
  from s l have m: "cellAt (setCell bd i (Mark t)) a = Mark r"
    "cellAt (setCell bd i (Mark t)) b = Mark r"
    "cellAt (setCell bd i (Mark t)) c = Mark r"
    by (simp_all only: lineWinner_Some)
  show ?thesis
  proof (cases "a = i \<or> b = i \<or> c = i")
    case True
    with m i show ?thesis by (auto simp: cellAt_setCell_same)
  next
    case False
    with m i have "cellAt bd a = Mark r \<and> cellAt bd b = Mark r \<and> cellAt bd c = Mark r"
      by (simp add: cellAt_setCell_other)
    then have "lineWinner bd (a, b, c) = Some r" by (simp only: lineWinner_Some)
    with n l show ?thesis by simp
  qed
qed

lemma applyMove_Playing:
  "status (snd (applyMove rm i)) = Playing \<Longrightarrow>
   checkWinner (board (snd (applyMove rm i))) = None"
  by (auto simp: applyMove_def Let_def split: option.splits if_splits)

lemma played_invariant:
  "played rm \<Longrightarrow>
   (status rm = Playing \<longrightarrow> (\<forall>l\<in>set WINNING_LINES. lineWinner (board rm) l = None))
   \<and> (\<forall>l\<in>set WINNING_LINES. \<forall>l'\<in>set WINNING_LINES. \<forall>r r'.
         lineWinner (board rm) l = Some r \<longrightarrow> lineWinner (board rm) l' = Some r' \<longrightarrow> r = r')"
proof (induction rule: played.induct)
  case (fresh rm)
  then show ?case by (simp add: lineWinner_fresh)
next
  case (move rm index)
  let ?rm' = "snd (applyMove rm (nat index))"
  from move.hyps(2) have st: "status rm = Playing"
    and il: "nat index < length (board rm)"
    by (auto dest: validateMove_None)
  from st move.IH have none: "\<forall>l\<in>set WINNING_LINES. lineWinner (board rm) l = None"
    by blast
  have bd: "board ?rm' = setCell (board rm) (nat index) (Mark (turn rm))"
    by (rule applyMove_board)
  have p1: "status ?rm' = Playing \<longrightarrow> (\<forall>l\<in>set WINNING_LINES. lineWinner (board ?rm') l = None)"
  proof
    assume "status ?rm' = Playing"
    then have "checkWinner (board ?rm') = None" by (rule applyMove_Playing)
    then show "\<forall>l\<in>set WINNING_LINES. lineWinner (board ?rm') l = None"
      unfolding checkWinner_def by (simp only: scanLines_None)
  qed
  have p2: "\<forall>l\<in>set WINNING_LINES. \<forall>r. lineWinner (board ?rm') l = Some r \<longrightarrow> r = turn rm"
  proof (intro ballI allI impI)
    fix l r assume "l \<in> set WINNING_LINES" and "lineWinner (board ?rm') l = Some r"
    with none il bd show "r = turn rm"
      by (metis lineWinner_setCell)
  qed
  from p1 p2 show ?case by metis
qed

text \<open>
  Claim C8. On every board reachable by alternating legal moves, scanning the eight
  winning lines in any permuted order gives the result of \<open>checkWinner\<close>, which scans
  rows, then columns, then diagonals.
\<close>

theorem checkWinner_order_irrelevant:
  assumes p: "played rm" and e: "mset ls = mset WINNING_LINES"
  shows "scanLines ls (board rm) = checkWinner (board rm)"
proof -
  from e have s: "set ls = set WINNING_LINES" by (rule mset_eq_setD)
  from p have u: "\<forall>l\<in>set WINNING_LINES. \<forall>l'\<in>set WINNING_LINES. \<forall>r r'.
         lineWinner (board rm) l = Some r \<longrightarrow> lineWinner (board rm) l' = Some r' \<longrightarrow> r = r'"
    by (blast dest: played_invariant)
  show ?thesis
  proof (cases "checkWinner (board rm)")
    case None
    then have "\<forall>l\<in>set ls. lineWinner (board rm) l = None"
      unfolding checkWinner_def s by (simp only: scanLines_None)
    then have "scanLines ls (board rm) = None" by (simp only: scanLines_None)
    with None show ?thesis by simp
  next
    case (Some r)
    then obtain l where l: "l \<in> set WINNING_LINES" "lineWinner (board rm) l = Some r"
      unfolding checkWinner_def by (blast dest: scanLines_Some)
    with s have "\<not> (\<forall>l\<in>set ls. lineWinner (board rm) l = None)" by auto
    then have "scanLines ls (board rm) \<noteq> None"
      using scanLines_None [of ls "board rm"] by blast
    then obtain r' where r': "scanLines ls (board rm) = Some r'" by auto
    then obtain l' where l': "l' \<in> set ls" "lineWinner (board rm) l' = Some r'"
      by (blast dest: scanLines_Some)
    with l s u have "r' = r" by blast
    with r' Some show ?thesis by simp
  qed
qed

lemma played_playMoves:
  "played rm \<Longrightarrow> playMoves rm is = Some rm' \<Longrightarrow> played rm'"
proof (induction "is" arbitrary: rm)
  case Nil
  then show ?case by simp
next
  case (Cons i "is")
  from Cons.prems(2) have v: "validateMove rm (turn rm) i = None"
    and r: "playMoves (snd (applyMove rm (nat i))) is = Some rm'"
    by (auto split: option.splits)
  from Cons.prems(1) v have "played (snd (applyMove rm (nat i)))" by (rule played.move)
  from this r show ?case by (rule Cons.IH)
qed

lemma scenarioB: "playMoves roomPlaying [0, 1, 4, 2, 8] = Some roomScenarioB"
  by (simp add: roomPlaying_def roomScenarioB_def validateMove_def applyMove_def
      setCell_def checkWinner_def checkDraw_def WINNING_LINES_def cellAt_def Let_def
      replicate_9)

theorem checkWinner_order_irrelevant_witness:
  "played roomScenarioB \<and> mset (rev WINNING_LINES) = mset WINNING_LINES
   \<and> scanLines (rev WINNING_LINES) (board roomScenarioB) = checkWinner (board roomScenarioB)
   \<and> checkWinner (board roomScenarioB) = Some RoleX"
proof -
  have "played roomPlaying" by (rule played.fresh) (simp add: roomPlaying_def)
  then have p: "played roomScenarioB" using scenarioB by (rule played_playMoves)
  have e: "mset (rev WINNING_LINES) = mset WINNING_LINES" by simp
  have w: "checkWinner (board roomScenarioB) = Some RoleX"
    by (simp add: roomScenarioB_def checkWinner_def WINNING_LINES_def cellAt_def)
  from p e w checkWinner_order_irrelevant [OF p e] show ?thesis by simp
qed


section \<open>Joining a room again\<close>

text \<open>
  Claim C2, at a failing input. In a room with two members, a join by one of them with
  the right pass key is answered with ROOM_FULL: the length check comes before the
  search for the connection among the members, so the branch for a connection that is
  already a member is not reached. The claim says the join returns that member's role.
\<close>

theorem joinRoom_member_of_full_room:
  "getPlayerRole storePlaying ''AAAAAA'' ''sockA'' = Some RoleX
   \<and> ''abcd'' = passKeyHash roomPlaying
   \<and> fst (joinRoom (=) storePlaying ''AAAAAA'' ''abcd'' ''sockA'') = Failure ROOM_FULL"
  by (simp add: joinRoom_def getPlayerRole_def storePlaying_def roomPlaying_def
      playerA_def playerB_def)

text \<open>
  What \<open>joinRoom\<close> does for a connection that is already a member: in a room with fewer
  than two members it returns the member's role and leaves the store; ROOM_FULL is the
  answer exactly when the room exists, the pass key is right and the room has two or more
  members, whoever asks, and the store is left as it was.
\<close>

lemma joinRoom_rejoin:
  "(rooms rid = Some rm \<and> compare pk (passKeyHash rm) \<and> length (players rm) < 2
      \<and> find (\<lambda>p. socketId p = sid) (players rm) = Some p
     \<longrightarrow> joinRoom compare rooms rid pk sid = (Success (role p, True), rooms))
   \<and> ((fst (joinRoom compare rooms rid pk sid) = Failure ROOM_FULL) =
        (\<exists>rm. rooms rid = Some rm \<and> compare pk (passKeyHash rm) \<and> length (players rm) \<ge> 2))
   \<and> (fst (joinRoom compare rooms rid pk sid) = Failure ROOM_FULL
     \<longrightarrow> snd (joinRoom compare rooms rid pk sid) = rooms)"
  by (auto simp: joinRoom_def Let_def split: option.splits)

lemma joinRoom_rejoin_example:
  "storeWaiting ''AAAAAA'' = Some roomWaiting \<and> ''abcd'' = passKeyHash roomWaiting
   \<and> length (players roomWaiting) < 2
   \<and> find (\<lambda>p. socketId p = ''sockA'') (players roomWaiting) = Some playerA
   \<and> joinRoom (=) storeWaiting ''AAAAAA'' ''abcd'' ''sockA''
       = (Success (RoleX, True), storeWaiting)
   \<and> fst (joinRoom (=) storePlaying ''AAAAAA'' ''abcd'' ''sockC'') = Failure ROOM_FULL
   \<and> snd (joinRoom (=) storePlaying ''AAAAAA'' ''abcd'' ''sockC'') = storePlaying"
proof -
  have a: "storeWaiting ''AAAAAA'' = Some roomWaiting \<and> ''abcd'' = passKeyHash roomWaiting
     \<and> length (players roomWaiting) < 2
     \<and> find (\<lambda>p. socketId p = ''sockA'') (players roomWaiting) = Some playerA"
    by (simp add: storeWaiting_def roomWaiting_def playerA_def)
  have r: "role playerA = RoleX" by (simp add: playerA_def)
  have f: "\<exists>rm. storePlaying ''AAAAAA'' = Some rm \<and> ''abcd'' = passKeyHash rm
     \<and> length (players rm) \<ge> 2"
    by (simp add: storePlaying_def roomPlaying_def)
  from a r joinRoom_rejoin [of storeWaiting "''AAAAAA''" roomWaiting "(=)" "''abcd''" "''sockA''" playerA]
  have c1: "joinRoom (=) storeWaiting ''AAAAAA'' ''abcd'' ''sockA''
       = (Success (RoleX, True), storeWaiting)"
    by simp
  from f joinRoom_rejoin [of storePlaying "''AAAAAA''" roomPlaying "(=)" "''abcd''" "''sockC''" playerA]
  have c2: "fst (joinRoom (=) storePlaying ''AAAAAA'' ''abcd'' ''sockC'') = Failure ROOM_FULL
     \<and> snd (joinRoom (=) storePlaying ''AAAAAA'' ''abcd'' ''sockC'') = storePlaying"
    by blast
  from a c1 c2 show ?thesis by blast
qed

section \<open>Creating a room\<close>

lemma generateRoomId_zeroDraws: "generateRoomId zeroDraws = ''AAAAAA''"
  by (simp add: generateRoomId_def zeroDraws_def charAt_def chars_def upt_rec)

text \<open>
  Claim C4, at a failing input. When the identifier generated first is already in the
  store, \<open>createRoom\<close> throws instead of generating another one: the store holds room
  AAAAAA, the random source draws AAAAAA, and the call ends with a \<^verbatim>\<open>TypeError\<close>,
  the store unchanged and no room created.
\<close>

theorem createRoom_collision_throws:
  "storeWaiting (generateRoomId zeroDraws) = Some roomWaiting
   \<and> createRoom id zeroDraws ''wxyz'' ''sockC'' storeWaiting = (Threw_TypeError, storeWaiting)"
  by (simp add: createRoom_def generateRoomId_zeroDraws storeWaiting_def)

text \<open>
  Without a collision \<open>createRoom\<close> returns the generated identifier, which has six
  characters, and stores a WAITING room whose only member has role X.
\<close>

lemma length_chars: "length chars = 36"
  by (simp add: chars_def)

lemma length_generateRoomId:
  assumes "\<forall>i<6. rnd i < 36"
  shows "length (generateRoomId rnd) = 6"
proof -
  have "map (length \<circ> (\<lambda>i. charAt chars (rnd i))) [0..<6] = map (\<lambda>i. 1) [0..<6]"
    using assms by (intro map_cong) (simp_all add: charAt_def length_chars)
  then have "length (generateRoomId rnd) = sum_list (map (\<lambda>i. 1) [0..<6])"
    by (simp only: generateRoomId_def length_concat map_map)
  then show ?thesis by (simp add: sum_list_triv)
qed

lemma createRoom_fresh:
  assumes "rooms (generateRoomId rnd) = None"
  shows "fst (createRoom hashf rnd passKey sid rooms) = Returned (generateRoomId rnd)"
    and "\<exists>rm. snd (createRoom hashf rnd passKey sid rooms) (generateRoomId rnd) = Some rm
      \<and> roomId rm = generateRoomId rnd \<and> passKeyHash rm = hashf passKey
      \<and> players rm = [\<lparr>socketId = sid, role = RoleX\<rparr>]
      \<and> board rm = replicate 9 Null \<and> turn rm = RoleX \<and> status rm = Waiting
      \<and> replayVotes rm = [] \<and> startingTurn rm = RoleX"
  using assms by (simp_all add: createRoom_def Let_def)


section \<open>Replay votes\<close>

lemma registerReplayVote_cases:
  "(\<exists>e. registerReplayVote rooms rid sid = (Failure e, rooms))
   \<or> (\<exists>rm. rooms rid = Some rm \<and> status rm = Ended \<and> sid \<notin> set (replayVotes rm)
        \<and> registerReplayVote rooms rid sid =
            (Success (Suc (length (replayVotes rm))),
             rooms(rid \<mapsto> rm\<lparr>replayVotes := replayVotes rm @ [sid]\<rparr>)))"
  by (auto simp: registerReplayVote_def setAdd_def Let_def split: option.splits)

lemma votesOf_registerReplayVote:
  "votesOf (snd (registerReplayVote rooms rid sid)) rid = votesOf rooms rid
   \<or> (sid \<notin> set (votesOf rooms rid)
       \<and> votesOf (snd (registerReplayVote rooms rid sid)) rid = votesOf rooms rid @ [sid])"
  using registerReplayVote_cases [of rooms rid sid]
  by (auto simp: votesOf_def)

lemma replayVoteCalls_length:
  "length (votesOf (replayVoteCalls rooms rid sids) rid)
     \<le> length (votesOf rooms rid) + card (set sids - set (votesOf rooms rid))"
proof (induction sids arbitrary: rooms)
  case Nil
  then show ?case by simp
next
  case (Cons sid sids)
  let ?r1 = "snd (registerReplayVote rooms rid sid)"
  let ?v = "votesOf rooms rid"
  have ih: "length (votesOf (replayVoteCalls ?r1 rid sids) rid)
     \<le> length (votesOf ?r1 rid) + card (set sids - set (votesOf ?r1 rid))"
    by (rule Cons.IH)
  from votesOf_registerReplayVote [of rooms rid sid] show ?case
  proof
    assume same: "votesOf ?r1 rid = ?v"
    have "card (set sids - set ?v) \<le> card (set (sid # sids) - set ?v)"
      by (rule card_mono) auto
    with ih same show ?thesis by simp
  next
    assume new: "sid \<notin> set ?v \<and> votesOf ?r1 rid = ?v @ [sid]"
    then have "set (sid # sids) - set ?v = insert sid (set sids - set (votesOf ?r1 rid))"
      by auto
    moreover have "sid \<notin> set sids - set (votesOf ?r1 rid)" using new by simp
    ultimately have "card (set (sid # sids) - set ?v) = Suc (card (set sids - set (votesOf ?r1 rid)))"
      by simp
    with ih new show ?thesis by simp
  qed
qed

lemma replayVoteCalls_keeps_vote:
  "rooms rid = Some rm \<Longrightarrow> status rm = Ended \<Longrightarrow> sid \<in> set (replayVotes rm) \<Longrightarrow>
   \<exists>rm'. replayVoteCalls rooms rid sids rid = Some rm' \<and> status rm' = Ended
      \<and> sid \<in> set (replayVotes rm')"
proof (induction sids arbitrary: rooms rm)
  case Nil
  then show ?case by simp
next
  case (Cons c sids)
  from registerReplayVote_cases [of rooms rid c] Cons.prems
  obtain rm1 where "snd (registerReplayVote rooms rid c) rid = Some rm1"
    and "status rm1 = Ended" and "sid \<in> set (replayVotes rm1)"
    by auto
  then have "\<exists>rm'. replayVoteCalls (snd (registerReplayVote rooms rid c)) rid sids rid = Some rm'
      \<and> status rm' = Ended \<and> sid \<in> set (replayVotes rm')"
    by (rule Cons.IH)
  then show ?case by simp
qed

lemma replay_request_bound:
  assumes "length (votesOf rooms rid) \<le> 1"
  shows "length (votesOf (replay_request rooms rid sid) rid) \<le> 1"
proof -
  from registerReplayVote_cases [of rooms rid sid] show ?thesis
  proof
    assume "\<exists>e. registerReplayVote rooms rid sid = (Failure e, rooms)"
    with assms show ?thesis by (auto simp: replay_request_def)
  next
    assume "\<exists>rm. rooms rid = Some rm \<and> status rm = Ended \<and> sid \<notin> set (replayVotes rm)
        \<and> registerReplayVote rooms rid sid =
            (Success (Suc (length (replayVotes rm))),
             rooms(rid \<mapsto> rm\<lparr>replayVotes := replayVotes rm @ [sid]\<rparr>))"
    then obtain rm where rm: "rooms rid = Some rm"
      and r: "registerReplayVote rooms rid sid =
            (Success (Suc (length (replayVotes rm))),
             rooms(rid \<mapsto> rm\<lparr>replayVotes := replayVotes rm @ [sid]\<rparr>))"
      by blast
    from assms rm have "length (replayVotes rm) \<le> 1" by (simp add: votesOf_def)
    then have "length (replayVotes rm) = 0 \<or> length (replayVotes rm) = 1" by arith
    then show ?thesis
    proof
      assume "length (replayVotes rm) = 0"
      with r show ?thesis by (simp add: replay_request_def votesOf_def)
    next
      assume "length (replayVotes rm) = 1"
      with r show ?thesis
        by (simp add: replay_request_def votesOf_def resetRoom_def Let_def)
    qed
  qed
qed

text \<open>
  Claim C3, as stated: after every sequence of \<open>registerReplayVote\<close> calls the room's
  \<open>replayVotes\<close> has at most 2 elements. It fails when three connections vote on an
  ended room: \<open>registerReplayVote\<close> checks neither membership nor the size.
\<close>

theorem replayVotes_counterexample:
  "\<not> length (votesOf (replayVoteCalls storeEnded ''AAAAAA'' [''sockA'', ''sockB'', ''sockC''])
        ''AAAAAA'') \<le> 2"
  by (simp add: votesOf_def registerReplayVote_def storeEnded_def roomEnded_def setAdd_def)

text \<open>
  Claim C3, amended. After a sequence of \<open>registerReplayVote\<close> calls on a room the size
  of \<open>replayVotes\<close> is at most its size before plus the number of distinct callers, so
  at most 2 when it starts empty and at most two connections call. A successful call
  appends the caller, who was not in the set, and returns the new size; every later call
  of the sequence by that connection fails with ALREADY_VOTED and leaves the store as it
  is. The bound of 2 itself is kept by the \<^verbatim>\<open>replay_request\<close> handler, which resets the
  room as soon as a vote returns 2: a set of at most one vote has at most one vote
  after the handler.
\<close>

theorem replayVotes_bounded_by_callers:
  "length (votesOf (replayVoteCalls rooms rid sids) rid)
     \<le> length (votesOf rooms rid) + card (set sids)
   \<and> (votesOf rooms rid = [] \<and> card (set sids) \<le> 2 \<longrightarrow>
        length (votesOf (replayVoteCalls rooms rid sids) rid) \<le> 2)
   \<and> (registerReplayVote rooms rid sid = (Success n, rooms1) \<longrightarrow>
        sid \<notin> set (votesOf rooms rid)
        \<and> votesOf rooms1 rid = votesOf rooms rid @ [sid]
        \<and> n = length (votesOf rooms1 rid)
        \<and> registerReplayVote (replayVoteCalls rooms1 rid sids) rid sid
            = (Failure ALREADY_VOTED, replayVoteCalls rooms1 rid sids))
   \<and> (length (votesOf rooms rid) \<le> 1 \<longrightarrow>
        length (votesOf (replay_request rooms rid sid) rid) \<le> 1)"
proof -
  have "card (set sids - set (votesOf rooms rid)) \<le> card (set sids)"
    by (rule card_mono) auto
  with replayVoteCalls_length [of rooms rid sids]
  have a: "length (votesOf (replayVoteCalls rooms rid sids) rid)
     \<le> length (votesOf rooms rid) + card (set sids)"
    by simp
  then have b: "votesOf rooms rid = [] \<and> card (set sids) \<le> 2 \<longrightarrow>
        length (votesOf (replayVoteCalls rooms rid sids) rid) \<le> 2"
    by (intro impI) (elim conjE, simp)
  have c: "registerReplayVote rooms rid sid = (Success n, rooms1) \<longrightarrow>
        sid \<notin> set (votesOf rooms rid)
        \<and> votesOf rooms1 rid = votesOf rooms rid @ [sid]
        \<and> n = length (votesOf rooms1 rid)
        \<and> registerReplayVote (replayVoteCalls rooms1 rid sids) rid sid
            = (Failure ALREADY_VOTED, replayVoteCalls rooms1 rid sids)"
  proof
    assume s: "registerReplayVote rooms rid sid = (Success n, rooms1)"
    with registerReplayVote_cases [of rooms rid sid]
    obtain rm where rm: "rooms rid = Some rm" "status rm = Ended" "sid \<notin> set (replayVotes rm)"
      and n: "n = Suc (length (replayVotes rm))"
      and r1: "rooms1 = rooms(rid \<mapsto> rm\<lparr>replayVotes := replayVotes rm @ [sid]\<rparr>)"
      by auto
    from r1 rm have "\<exists>rm'. replayVoteCalls rooms1 rid sids rid = Some rm' \<and> status rm' = Ended
      \<and> sid \<in> set (replayVotes rm')"
      by (intro replayVoteCalls_keeps_vote [of rooms1 rid "rm\<lparr>replayVotes := replayVotes rm @ [sid]\<rparr>"]) simp_all
    then have "registerReplayVote (replayVoteCalls rooms1 rid sids) rid sid
            = (Failure ALREADY_VOTED, replayVoteCalls rooms1 rid sids)"
      by (auto simp: registerReplayVote_def)
    with rm n r1 show "sid \<notin> set (votesOf rooms rid)
        \<and> votesOf rooms1 rid = votesOf rooms rid @ [sid]
        \<and> n = length (votesOf rooms1 rid)
        \<and> registerReplayVote (replayVoteCalls rooms1 rid sids) rid sid
            = (Failure ALREADY_VOTED, replayVoteCalls rooms1 rid sids)"
      by (simp add: votesOf_def)
  qed
  have d: "length (votesOf rooms rid) \<le> 1 \<longrightarrow>
        length (votesOf (replay_request rooms rid sid) rid) \<le> 1"
    by (blast intro: replay_request_bound)
  from a b c d show ?thesis by blast
qed

theorem replayVotes_bounded_by_callers_witness:
  "votesOf storeEnded ''AAAAAA'' = [] \<and> card (set [''sockA'', ''sockB'', ''sockA'']) \<le> 2
   \<and> length (votesOf (replayVoteCalls storeEnded ''AAAAAA'' [''sockA'', ''sockB'', ''sockA''])
        ''AAAAAA'') \<le> 2
   \<and> fst (registerReplayVote storeEnded ''AAAAAA'' ''sockA'') = Success 1
   \<and> fst (registerReplayVote
        (replayVoteCalls (snd (registerReplayVote storeEnded ''AAAAAA'' ''sockA'')) ''AAAAAA''
           [''sockB''])
        ''AAAAAA'' ''sockA'') = Failure ALREADY_VOTED
   \<and> length (votesOf (replay_request storeEnded ''AAAAAA'' ''sockA'') ''AAAAAA'') \<le> 1"
proof -
  have a: "votesOf storeEnded ''AAAAAA'' = [] \<and> card (set [''sockA'', ''sockB'', ''sockA'']) \<le> 2"
  proof -
    have "set [''sockA'', ''sockB'', ''sockA''] = {''sockA'', ''sockB''}" by auto
    then have "card (set [''sockA'', ''sockB'', ''sockA'']) = 2" by simp
    then show ?thesis by (simp add: votesOf_def storeEnded_def roomEnded_def)
  qed
  have s: "registerReplayVote storeEnded ''AAAAAA'' ''sockA''
      = (Success 1, snd (registerReplayVote storeEnded ''AAAAAA'' ''sockA''))"
    by (simp add: registerReplayVote_def storeEnded_def roomEnded_def setAdd_def)
  have c1: "length (votesOf (replayVoteCalls storeEnded ''AAAAAA'' [''sockA'', ''sockB'', ''sockA''])
        ''AAAAAA'') \<le> 2"
    using replayVotes_bounded_by_callers
      [of storeEnded "''AAAAAA''" "[''sockA'', ''sockB'', ''sockA'']", THEN conjunct2, THEN conjunct1]
      a
    by (rule mp)
  have "registerReplayVote
        (replayVoteCalls (snd (registerReplayVote storeEnded ''AAAAAA'' ''sockA'')) ''AAAAAA''
           [''sockB''])
        ''AAAAAA'' ''sockA''
      = (Failure ALREADY_VOTED,
         replayVoteCalls (snd (registerReplayVote storeEnded ''AAAAAA'' ''sockA'')) ''AAAAAA''
           [''sockB''])"
    using replayVotes_bounded_by_callers
      [of storeEnded "''AAAAAA''" "[''sockB'']" "''sockA''" 1
          "snd (registerReplayVote storeEnded ''AAAAAA'' ''sockA'')",
       THEN conjunct2, THEN conjunct2, THEN conjunct1, THEN mp, OF s]
    by (elim conjE)
  then have c2: "fst (registerReplayVote
        (replayVoteCalls (snd (registerReplayVote storeEnded ''AAAAAA'' ''sockA'')) ''AAAAAA''
           [''sockB''])
        ''AAAAAA'' ''sockA'') = Failure ALREADY_VOTED"
    by (simp only: fst_conv)
  from s have c3: "fst (registerReplayVote storeEnded ''AAAAAA'' ''sockA'') = Success 1"
    by (metis fst_conv)
  have "length (votesOf storeEnded ''AAAAAA'') \<le> 1"
    using a by simp
  with replayVotes_bounded_by_callers
      [of storeEnded "''AAAAAA''" "[]" "''sockA''", THEN conjunct2, THEN conjunct2, THEN conjunct2]
  have c4: "length (votesOf (replay_request storeEnded ''AAAAAA'' ''sockA'') ''AAAAAA'') \<le> 1"
    by (rule mp)
  from a c1 c2 c3 c4 show ?thesis by blast
qed


section \<open>Removing a member\<close>

lemma findIndex_member:
  "\<exists>x\<in>set xs. P x \<Longrightarrow> \<exists>i. findIndex P xs = Some i \<and> i < length xs"
proof (induction xs)
  case Nil
  then show ?case by simp
next
  case (Cons a xs)
  show ?case
  proof (cases "P a")
    case True
    then show ?thesis by simp
  next
    case False
    with Cons.prems have "\<exists>x\<in>set xs. P x" by auto
    then obtain i where "findIndex P xs = Some i" and "i < length xs"
      using Cons.IH by blast
    with False show ?thesis by simp
  qed
qed

lemma findIndex_less: "findIndex P xs = Some i \<Longrightarrow> i < length xs"
  by (induction xs arbitrary: i) (auto split: if_splits option.splits)

lemma length_splice1: "i < length xs \<Longrightarrow> length (splice1 xs i) = length xs - 1"
  by (auto simp: splice1_def)

lemma splice1_findIndex:
  "findIndex P xs = Some i \<Longrightarrow>
   splice1 xs i = takeWhile (\<lambda>x. \<not> P x) xs @ tl (dropWhile (\<lambda>x. \<not> P x) xs)"
proof (induction xs arbitrary: i)
  case Nil
  then show ?case by simp
next
  case (Cons a xs)
  show ?case
  proof (cases "P a")
    case True
    with Cons.prems show ?thesis by (simp add: splice1_def)
  next
    case False
    with Cons.prems obtain j where j: "findIndex P xs = Some j" and i: "i = Suc j"
      by (auto split: option.splits)
    from j have "splice1 xs j = takeWhile (\<lambda>x. \<not> P x) xs @ tl (dropWhile (\<lambda>x. \<not> P x) xs)"
      by (rule Cons.IH)
    with False i show ?thesis by (simp add: splice1_def)
  qed
qed

lemma applyMove_players: "players (snd (applyMove rm i)) = players rm"
  by (simp add: applyMove_def Let_def split: option.splits)

lemma removePlayer_member:
  assumes rm: "rooms rid = Some rm" and m: "\<exists>p\<in>set (players rm). socketId p = sid"
  shows "(length (players rm) = 1 \<longrightarrow>
            removePlayer rooms rid sid =
              (\<lparr>roomExists = False, hadPlayers = True, remainingPlayers = 0\<rparr>, rooms(rid := None)))
       \<and> (length (players rm) = 2 \<longrightarrow>
            (\<exists>rm'. removePlayer rooms rid sid =
               (\<lparr>roomExists = True, hadPlayers = True, remainingPlayers = 1\<rparr>, rooms(rid \<mapsto> rm'))
             \<and> players rm' =
                 takeWhile (\<lambda>p. socketId p \<noteq> sid) (players rm)
                 @ tl (dropWhile (\<lambda>p. socketId p \<noteq> sid) (players rm))
             \<and> length (players rm') = 1 \<and> status rm' = Waiting
             \<and> board rm' = replicate 9 Null \<and> turn rm' = RoleX \<and> replayVotes rm' = []))"
proof -
  from m obtain i where i: "findIndex (\<lambda>p. socketId p = sid) (players rm) = Some i"
    and il: "i < length (players rm)"
    using findIndex_member [of "players rm" "\<lambda>p. socketId p = sid"] by blast
  from il have len: "length (splice1 (players rm) i) = length (players rm) - 1"
    by (rule length_splice1)
  from i have who: "splice1 (players rm) i =
      takeWhile (\<lambda>p. socketId p \<noteq> sid) (players rm)
      @ tl (dropWhile (\<lambda>p. socketId p \<noteq> sid) (players rm))"
    by (rule splice1_findIndex)
  let ?rm' = "rm\<lparr>players := splice1 (players rm) i, status := Waiting,
      board := replicate 9 Null, turn := RoleX, replayVotes := []\<rparr>"
  have one: "length (players rm) = 1 \<longrightarrow>
            removePlayer rooms rid sid =
              (\<lparr>roomExists = False, hadPlayers = True, remainingPlayers = 0\<rparr>, rooms(rid := None))"
  proof
    assume "length (players rm) = 1"
    with len have "splice1 (players rm) i = []" by simp
    with rm i show "removePlayer rooms rid sid =
              (\<lparr>roomExists = False, hadPlayers = True, remainingPlayers = 0\<rparr>, rooms(rid := None))"
      by (simp add: removePlayer_def Let_def)
  qed
  have two: "length (players rm) = 2 \<longrightarrow>
            removePlayer rooms rid sid =
               (\<lparr>roomExists = True, hadPlayers = True, remainingPlayers = 1\<rparr>, rooms(rid \<mapsto> ?rm'))
             \<and> players ?rm' =
                 takeWhile (\<lambda>p. socketId p \<noteq> sid) (players rm)
                 @ tl (dropWhile (\<lambda>p. socketId p \<noteq> sid) (players rm))
             \<and> length (players ?rm') = 1 \<and> status ?rm' = Waiting
             \<and> board ?rm' = replicate 9 Null \<and> turn ?rm' = RoleX \<and> replayVotes ?rm' = []"
  proof
    assume "length (players rm) = 2"
    with len have l1: "length (splice1 (players rm) i) = 1" by simp
    then have "splice1 (players rm) i \<noteq> []" by auto
    with rm i l1 who show "removePlayer rooms rid sid =
               (\<lparr>roomExists = True, hadPlayers = True, remainingPlayers = 1\<rparr>, rooms(rid \<mapsto> ?rm'))
             \<and> players ?rm' =
                 takeWhile (\<lambda>p. socketId p \<noteq> sid) (players rm)
                 @ tl (dropWhile (\<lambda>p. socketId p \<noteq> sid) (players rm))
             \<and> length (players ?rm') = 1 \<and> status ?rm' = Waiting
             \<and> board ?rm' = replicate 9 Null \<and> turn ?rm' = RoleX \<and> replayVotes ?rm' = []"
      by (simp add: removePlayer_def Let_def)
  qed
  from one two show ?thesis by blast
qed

lemma removePlayer_keeps_members:
  assumes inv: "\<forall>r rm. rooms r = Some rm \<longrightarrow> players rm \<noteq> []"
  shows "\<forall>r rm. snd (removePlayer rooms rid sid) r = Some rm \<longrightarrow> players rm \<noteq> []"
  using inv
  by (auto simp: removePlayer_def Let_def split: option.splits if_splits)

lemma joinRoom_keeps_members:
  assumes inv: "\<forall>r rm. rooms r = Some rm \<longrightarrow> players rm \<noteq> []"
  shows "\<forall>r rm. snd (joinRoom compare rooms rid pk sid) r = Some rm \<longrightarrow> players rm \<noteq> []"
  using inv
  by (auto simp: joinRoom_def Let_def split: option.splits if_splits)

lemma createRoom_keeps_members:
  assumes inv: "\<forall>r rm. rooms r = Some rm \<longrightarrow> players rm \<noteq> []"
  shows "\<forall>r rm. snd (createRoom hashf rnd pk sid rooms) r = Some rm \<longrightarrow> players rm \<noteq> []"
  using inv
  by (auto simp: createRoom_def Let_def split: if_splits)

lemma applyMoveToRoom_keeps_members:
  assumes inv: "\<forall>r rm. rooms r = Some rm \<longrightarrow> players rm \<noteq> []"
  shows "\<forall>r rm. snd (applyMoveToRoom rooms rid sid index) r = Some rm \<longrightarrow> players rm \<noteq> []"
proof (intro allI impI)
  fix r rm assume s: "snd (applyMoveToRoom rooms rid sid index) r = Some rm"
  show "players rm \<noteq> []"
  proof (cases "\<exists>e. fst (applyMoveToRoom rooms rid sid index) = Failure e")
    case True
    then have "snd (applyMoveToRoom rooms rid sid index) = rooms"
      by (auto simp: applyMoveToRoom_def split: option.splits prod.splits)
    with s inv show ?thesis by auto
  next
    case False
    then obtain rm' out where "applyMoveToRoom rooms rid sid index
        = (Success (rm', out), snd (applyMoveToRoom rooms rid sid index))"
      by (metis prod.collapse result.exhaust surj_pair)
    then obtain rm0 r0 where rm0: "rooms rid = Some rm0"
      and a: "applyMove rm0 (nat index) = (out, rm')"
      and st: "snd (applyMoveToRoom rooms rid sid index) = rooms(rid \<mapsto> rm')"
      by (blast dest: applyMoveToRoom_Success)
    from a have "players rm' = players rm0"
      using applyMove_players [of rm0 "nat index"] by simp
    with rm0 inv have "players rm' \<noteq> []" by auto
    with s st inv show ?thesis by (auto split: if_splits)
  qed
qed

lemma registerReplayVote_keeps_members:
  assumes inv: "\<forall>r rm. rooms r = Some rm \<longrightarrow> players rm \<noteq> []"
  shows "\<forall>r rm. snd (registerReplayVote rooms rid sid) r = Some rm \<longrightarrow> players rm \<noteq> []"
  using inv
  by (auto simp: registerReplayVote_def Let_def split: option.splits if_splits)

lemma resetRoom_keeps_members:
  assumes inv: "\<forall>r rm. rooms r = Some rm \<longrightarrow> players rm \<noteq> []"
  shows "\<forall>r rm. snd (resetRoom rooms rid) r = Some rm \<longrightarrow> players rm \<noteq> []"
  using inv
  by (auto simp: resetRoom_def Let_def split: option.splits if_splits)

lemma reachable_members:
  "reachable rooms \<Longrightarrow> \<forall>r rm. rooms r = Some rm \<longrightarrow> players rm \<noteq> []"
proof (induction rule: reachable.induct)
  case start
  show ?case by simp
next
  case (create rooms hashf rnd passKey sid)
  from create.IH show ?case by (rule createRoom_keeps_members)
next
  case (join rooms compare rid passKey sid)
  from join.IH show ?case by (rule joinRoom_keeps_members)
next
  case (move rooms rid sid index)
  from move.IH show ?case by (rule applyMoveToRoom_keeps_members)
next
  case (vote rooms rid sid)
  from vote.IH show ?case by (rule registerReplayVote_keeps_members)
next
  case (reset rooms rid)
  from reset.IH show ?case by (rule resetRoom_keeps_members)
next
  case (remove rooms rid sid)
  from remove.IH show ?case by (rule removePlayer_keeps_members)
qed

text \<open>
  Claim C7. When one of the two members of a room departs, \<open>removePlayer\<close> leaves a room
  with one member, status WAITING and an all-EMPTY board; the member left is the other
  one: the players are the old list without its first entry for the departing connection.
  When the only member of a room departs, the room is deleted from the store; and in
  every store reachable from the empty one by the operations of the room manager, every
  room has at least one member.
\<close>

theorem removePlayer_no_empty_room:
  "(rooms rid = Some rm \<and> length (players rm) = 2 \<and> (\<exists>p\<in>set (players rm). socketId p = sid)
      \<longrightarrow> (\<exists>rm'. removePlayer rooms rid sid =
               (\<lparr>roomExists = True, hadPlayers = True, remainingPlayers = 1\<rparr>, rooms(rid \<mapsto> rm'))
             \<and> length (players rm') = 1 \<and> status rm' = Waiting
             \<and> board rm' = replicate 9 Null
             \<and> players rm' =
                 takeWhile (\<lambda>p. socketId p \<noteq> sid) (players rm)
                 @ tl (dropWhile (\<lambda>p. socketId p \<noteq> sid) (players rm))
             \<and> (\<forall>p q. players rm = [p, q] \<and> socketId p = sid \<longrightarrow> players rm' = [q])
             \<and> (\<forall>p q. players rm = [p, q] \<and> socketId p \<noteq> sid \<longrightarrow> players rm' = [p])))
   \<and> (rooms rid = Some rm \<and> length (players rm) = 1 \<and> (\<exists>p\<in>set (players rm). socketId p = sid)
      \<longrightarrow> removePlayer rooms rid sid =
            (\<lparr>roomExists = False, hadPlayers = True, remainingPlayers = 0\<rparr>, rooms(rid := None)))
   \<and> (reachable rooms \<and> rooms rid = Some rm \<longrightarrow> players rm \<noteq> [])"
proof (intro conjI impI)
  assume h: "rooms rid = Some rm \<and> length (players rm) = 2
    \<and> (\<exists>p\<in>set (players rm). socketId p = sid)"
  then obtain rm' where r: "removePlayer rooms rid sid =
               (\<lparr>roomExists = True, hadPlayers = True, remainingPlayers = 1\<rparr>, rooms(rid \<mapsto> rm'))"
    and w: "players rm' =
                 takeWhile (\<lambda>p. socketId p \<noteq> sid) (players rm)
                 @ tl (dropWhile (\<lambda>p. socketId p \<noteq> sid) (players rm))"
    and l: "length (players rm') = 1" and s: "status rm' = Waiting"
    and b: "board rm' = replicate 9 Null"
    using removePlayer_member [of rooms rid rm sid] by blast
  from h have m: "\<exists>p\<in>set (players rm). socketId p = sid" by simp
  have f: "\<forall>p q. players rm = [p, q] \<and> socketId p = sid \<longrightarrow> players rm' = [q]"
    using w by simp
  have g: "\<forall>p q. players rm = [p, q] \<and> socketId p \<noteq> sid \<longrightarrow> players rm' = [p]"
    using w m by auto
  from r w l s b f g
  show "\<exists>rm'. removePlayer rooms rid sid =
               (\<lparr>roomExists = True, hadPlayers = True, remainingPlayers = 1\<rparr>, rooms(rid \<mapsto> rm'))
             \<and> length (players rm') = 1 \<and> status rm' = Waiting
             \<and> board rm' = replicate 9 Null
             \<and> players rm' =
                 takeWhile (\<lambda>p. socketId p \<noteq> sid) (players rm)
                 @ tl (dropWhile (\<lambda>p. socketId p \<noteq> sid) (players rm))
             \<and> (\<forall>p q. players rm = [p, q] \<and> socketId p = sid \<longrightarrow> players rm' = [q])
             \<and> (\<forall>p q. players rm = [p, q] \<and> socketId p \<noteq> sid \<longrightarrow> players rm' = [p])"
    by (intro exI [of _ rm']) simp
next
  assume "rooms rid = Some rm \<and> length (players rm) = 1
    \<and> (\<exists>p\<in>set (players rm). socketId p = sid)"
  then show "removePlayer rooms rid sid =
            (\<lparr>roomExists = False, hadPlayers = True, remainingPlayers = 0\<rparr>, rooms(rid := None))"
    using removePlayer_member [of rooms rid rm sid] by blast
next
  assume "reachable rooms \<and> rooms rid = Some rm"
  then show "players rm \<noteq> []"
    using reachable_members [of rooms] by blast
qed

lemma reachable_storeWaiting: "reachable storeWaiting"
proof -
  have "snd (createRoom id zeroDraws ''abcd'' ''sockA'' Map.empty) = storeWaiting"
    by (simp add: createRoom_def generateRoomId_zeroDraws storeWaiting_def roomWaiting_def
        playerA_def Let_def)
  with reachable.create [OF reachable.start, of id zeroDraws "''abcd''" "''sockA''"]
  show ?thesis by simp
qed

theorem removePlayer_no_empty_room_witness:
  "storePlaying ''AAAAAA'' = Some roomPlaying \<and> length (players roomPlaying) = 2
   \<and> (\<exists>p\<in>set (players roomPlaying). socketId p = ''sockB'')
   \<and> (\<exists>rm'. removePlayer storePlaying ''AAAAAA'' ''sockB'' =
          (\<lparr>roomExists = True, hadPlayers = True, remainingPlayers = 1\<rparr>,
           storePlaying(''AAAAAA'' \<mapsto> rm'))
        \<and> length (players rm') = 1 \<and> status rm' = Waiting \<and> board rm' = replicate 9 Null
        \<and> players rm' = [playerA])
   \<and> (\<exists>rm'. removePlayer storePlaying ''AAAAAA'' ''sockA'' =
          (\<lparr>roomExists = True, hadPlayers = True, remainingPlayers = 1\<rparr>,
           storePlaying(''AAAAAA'' \<mapsto> rm'))
        \<and> players rm' = [playerB])
   \<and> storeWaiting ''AAAAAA'' = Some roomWaiting \<and> length (players roomWaiting) = 1
   \<and> (\<exists>p\<in>set (players roomWaiting). socketId p = ''sockA'')
   \<and> removePlayer storeWaiting ''AAAAAA'' ''sockA'' =
        (\<lparr>roomExists = False, hadPlayers = True, remainingPlayers = 0\<rparr>,
         storeWaiting(''AAAAAA'' := None))
   \<and> reachable storeWaiting \<and> players roomWaiting \<noteq> []"
proof -
  have a: "storePlaying ''AAAAAA'' = Some roomPlaying \<and> length (players roomPlaying) = 2
     \<and> (\<exists>p\<in>set (players roomPlaying). socketId p = ''sockB'')"
    by (simp add: storePlaying_def roomPlaying_def playerA_def playerB_def)
  have b: "storeWaiting ''AAAAAA'' = Some roomWaiting \<and> length (players roomWaiting) = 1
     \<and> (\<exists>p\<in>set (players roomWaiting). socketId p = ''sockA'')"
    by (simp add: storeWaiting_def roomWaiting_def playerA_def)
  from b reachable_storeWaiting
  have c: "reachable storeWaiting \<and> storeWaiting ''AAAAAA'' = Some roomWaiting"
    by simp
  have pl: "players roomPlaying = [playerA, playerB]"
    "socketId playerA = ''sockA''" "socketId playerB = ''sockB''"
    by (simp_all add: roomPlaying_def playerA_def playerB_def)
  have a': "storePlaying ''AAAAAA'' = Some roomPlaying \<and> length (players roomPlaying) = 2
     \<and> (\<exists>p\<in>set (players roomPlaying). socketId p = ''sockA'')"
    using a pl by simp
  obtain rmB where rB: "removePlayer storePlaying ''AAAAAA'' ''sockB'' =
          (\<lparr>roomExists = True, hadPlayers = True, remainingPlayers = 1\<rparr>,
           storePlaying(''AAAAAA'' \<mapsto> rmB))"
    and lB: "length (players rmB) = 1 \<and> status rmB = Waiting \<and> board rmB = replicate 9 Null"
    and sB: "\<forall>p q. players roomPlaying = [p, q] \<and> socketId p \<noteq> ''sockB'' \<longrightarrow> players rmB = [p]"
    using removePlayer_no_empty_room [of storePlaying "''AAAAAA''" roomPlaying "''sockB''",
        THEN conjunct1, THEN mp, OF a]
    by blast
  from sB pl have "players rmB = [playerA]" by simp
  with rB lB have c1: "\<exists>rm'. removePlayer storePlaying ''AAAAAA'' ''sockB'' =
          (\<lparr>roomExists = True, hadPlayers = True, remainingPlayers = 1\<rparr>,
           storePlaying(''AAAAAA'' \<mapsto> rm'))
        \<and> length (players rm') = 1 \<and> status rm' = Waiting \<and> board rm' = replicate 9 Null
        \<and> players rm' = [playerA]"
    by blast
  obtain rmA where rA: "removePlayer storePlaying ''AAAAAA'' ''sockA'' =
          (\<lparr>roomExists = True, hadPlayers = True, remainingPlayers = 1\<rparr>,
           storePlaying(''AAAAAA'' \<mapsto> rmA))"
    and sA: "\<forall>p q. players roomPlaying = [p, q] \<and> socketId p = ''sockA'' \<longrightarrow> players rmA = [q]"
    using removePlayer_no_empty_room [of storePlaying "''AAAAAA''" roomPlaying "''sockA''",
        THEN conjunct1, THEN mp, OF a']
    by blast
  from sA pl have "players rmA = [playerB]" by simp
  with rA have c1': "\<exists>rm'. removePlayer storePlaying ''AAAAAA'' ''sockA'' =
          (\<lparr>roomExists = True, hadPlayers = True, remainingPlayers = 1\<rparr>,
           storePlaying(''AAAAAA'' \<mapsto> rm'))
        \<and> players rm' = [playerB]"
    by blast
  have c2: "removePlayer storeWaiting ''AAAAAA'' ''sockA'' =
        (\<lparr>roomExists = False, hadPlayers = True, remainingPlayers = 0\<rparr>,
         storeWaiting(''AAAAAA'' := None))"
    using removePlayer_no_empty_room [of storeWaiting "''AAAAAA''" roomWaiting "''sockA''",
        THEN conjunct2, THEN conjunct1] b
    by (rule mp)
  have c3: "players roomWaiting \<noteq> []"
    using removePlayer_no_empty_room [of storeWaiting "''AAAAAA''" roomWaiting "''sockA''",
        THEN conjunct2, THEN conjunct2] c
    by (rule mp)
  from a b c c1 c1' c2 c3 show ?thesis by blast
qed


end
